theory Spec2Isabelle
  imports Complex_Main
begin

section \<open>Pseudo-random number generators and elementary samplers\<close>

text \<open>
  The notebook is Python 2. Its integers are unbounded and are modelled as \<open>int\<close>; on
  \<open>int\<close>, HOL's \<open>div\<close> and \<open>mod\<close> round towards minus infinity, as Python's \<open>/\<close> (on
  integers) and \<open>%\<close> do. Finite floats are read as the real numbers they denote, so
  float arithmetic is the exact arithmetic of \<open>real\<close>: rounding is not modelled.
  An exception is a value \<open>Inl e\<close> of a sum type.
\<close>

datatype error = ZeroDivisionError | ValueError

subsection \<open>Linear congruential generator\<close>

text \<open>\<^verbatim>\<open>def lcg(x, a=123456, b=978564, m=6012119): return (a * x + b) % m\<close>.
  Python raises \<open>ZeroDivisionError\<close> for a zero modulus.\<close>

definition lcg :: "int \<Rightarrow> int \<Rightarrow> int \<Rightarrow> int \<Rightarrow> error + int" where
  "lcg x a b m = (if m = 0 then Inl ZeroDivisionError else Inr ((a * x + b) mod m))"

text \<open>The call \<^verbatim>\<open>lcg(x)\<close>, with every default argument.\<close>

definition lcg_default :: "int \<Rightarrow> error + int" where
  "lcg_default x = lcg x 123456 978564 6012119"


subsection \<open>Uniform samples from the generator\<close>

text \<open>The globals \<^verbatim>\<open>m = 6012119\<close> and \<^verbatim>\<open>lcg_seed = 123456\<close>; \<^verbatim>\<open>lcg_state\<close> starts at
  \<open>lcg_seed\<close>.\<close>

definition m :: int where
  "m = 6012119"

definition lcg_seed :: int where
  "lcg_seed = 123456"

text \<open>
  \<^verbatim>\<open>def unif_lcg():
      global lcg_state
      lcg_state = lcg(lcg_state)
      return lcg_state / (1. * m)\<close>
  The global \<open>lcg_state\<close> is passed in, and the result is the pair of the value returned
  and the new \<open>lcg_state\<close>. A float division by zero raises \<open>ZeroDivisionError\<close>.
\<close>

definition unif_lcg :: "int \<Rightarrow> error + (real \<times> int)" where
  "unif_lcg lcg_state =
     (case lcg_default lcg_state of
        Inl e \<Rightarrow> Inl e
      | Inr lcg_state' \<Rightarrow>
          if 1 * real_of_int m = 0 then Inl ZeroDivisionError
          else Inr (real_of_int lcg_state' / (1 * real_of_int m), lcg_state'))"

subsection \<open>The middle-square generator\<close>

text \<open>\<^verbatim>\<open>str(n)\<close> of a Python integer: the decimal digits, after a minus sign when \<open>n\<close>
  is negative.\<close>

definition digit_char :: "nat \<Rightarrow> char" where
  "digit_char d = ''0123456789'' ! d"

function digits_str :: "nat \<Rightarrow> string" where
  "digits_str n = (if n < 10 then [digit_char n] else digits_str (n div 10) @ [digit_char (n mod 10)])"
  by pat_completeness auto
termination
  by (relation "measure id") auto

declare digits_str.simps [simp del]

definition py_str :: "int \<Rightarrow> string" where
  "py_str n = (if n < 0 then CHR ''-'' # digits_str (nat (- n)) else digits_str (nat n))"

text \<open>\<^verbatim>\<open>s.zfill(width)\<close>: zeros on the left up to \<open>width\<close> characters, put after a leading
  sign; \<open>s\<close> itself when it is long enough.\<close>

definition zfill :: "string \<Rightarrow> int \<Rightarrow> string" where
  "zfill s width =
     (if width \<le> int (length s) then s
      else (let pad = replicate (nat (width - int (length s))) CHR ''0'' in
            case s of
              [] \<Rightarrow> pad
            | c # rest \<Rightarrow> if c = CHR ''+'' \<or> c = CHR ''-'' then c # pad @ rest else pad @ s))"

text \<open>The slices \<^verbatim>\<open>xs[a:]\<close> and \<^verbatim>\<open>xs[:b]\<close>: a negative bound counts from the end, and
  every bound is clipped to the length.\<close>

definition slice_bound :: "int \<Rightarrow> nat \<Rightarrow> nat" where
  "slice_bound i n = (if i < 0 then nat (max (int n + i) 0) else nat (min i (int n)))"

definition slice_from :: "int \<Rightarrow> 'a list \<Rightarrow> 'a list" where
  "slice_from a xs = drop (slice_bound a (length xs)) xs"

definition slice_to :: "int \<Rightarrow> 'a list \<Rightarrow> 'a list" where
  "slice_to b xs = take (slice_bound b (length xs)) xs"

text \<open>\<^verbatim>\<open>int(s)\<close> of a string: white space around it is dropped, then come an optional
  sign and at least one decimal digit; anything else raises \<open>ValueError\<close>.\<close>

fun index_of :: "'a \<Rightarrow> 'a list \<Rightarrow> nat option" where
  "index_of x [] = None"
| "index_of x (y # ys) = (if x = y then Some 0 else map_option Suc (index_of x ys))"

definition digit_val :: "char \<Rightarrow> nat option" where
  "digit_val c = index_of c ''0123456789''"

fun parse_digits :: "nat \<Rightarrow> string \<Rightarrow> nat option" where
  "parse_digits acc [] = Some acc"
| "parse_digits acc (c # cs) =
     (case digit_val c of None \<Rightarrow> None | Some d \<Rightarrow> parse_digits (10 * acc + d) cs)"

definition parse_nat :: "string \<Rightarrow> error + int" where
  "parse_nat cs =
     (if cs = [] then Inl ValueError
      else case parse_digits 0 cs of None \<Rightarrow> Inl ValueError | Some n \<Rightarrow> Inr (int n))"

definition is_space :: "char \<Rightarrow> bool" where
  "is_space c = (c \<in> set [CHR '' '', CHR 0x09, CHR 0x0A, CHR 0x0B, CHR 0x0C, CHR 0x0D])"

definition strip :: "string \<Rightarrow> string" where
  "strip s = rev (dropWhile is_space (rev (dropWhile is_space s)))"

definition py_int :: "string \<Rightarrow> error + int" where
  "py_int s =
     (case strip s of
        [] \<Rightarrow> Inl ValueError
      | c # rest \<Rightarrow>
          if c = CHR ''-'' then map_sum id uminus (parse_nat rest)
          else if c = CHR ''+'' then parse_nat rest
          else parse_nat (c # rest))"

text \<open>
  \<^verbatim>\<open>def middlesquare(s, digits=4):
      s2 = s ** 2
      s2_str = str(s2).zfill(2*digits)
      middle_str = s2_str[digits/2:][:-digits/2]
      return int(middle_str)\<close>
  In Python 2 \<open>/\<close> on integers is the floor division, and \<^verbatim>\<open>-digits/2\<close> is
  \<^verbatim>\<open>(-digits)/2\<close>.
\<close>

definition middlesquare :: "int \<Rightarrow> int \<Rightarrow> error + int" where
  "middlesquare s digits =
     (let s2 = s ^ 2;
          s2_str = zfill (py_str s2) (2 * digits);
          middle_str = slice_to ((- digits) div 2) (slice_from (digits div 2) s2_str)
      in py_int middle_str)"

text \<open>The loop \<^verbatim>\<open>s = seed; for _ in range(n): s = middlesquare(s, digits); print s\<close>: the
  list of the states printed, or the exception that stopped the loop.\<close>

fun middlesquare_loop :: "nat \<Rightarrow> int \<Rightarrow> int \<Rightarrow> error + int list" where
  "middlesquare_loop 0 s digits = Inr []"
| "middlesquare_loop (Suc n) s digits =
     (case middlesquare s digits of
        Inl e \<Rightarrow> Inl e
      | Inr s' \<Rightarrow> (case middlesquare_loop n s' digits of
                    Inl e \<Rightarrow> Inl e
                  | Inr xs \<Rightarrow> Inr (s' # xs)))"

subsection \<open>Samplers\<close>

text \<open>
  Each sampler draws \<^verbatim>\<open>u = np.random.rand()\<close>, a float of the interval [0, 1). The draw
  is the argument \<open>u\<close> of the model. A float that is an argument of the caller's can
  also be an infinity or a NaN; \<open>float_le\<close> and \<open>float_lt\<close> are \<^verbatim>\<open><=\<close> and \<^verbatim>\<open><\<close> on
  floats, false whenever an operand is a NaN.
\<close>

datatype pyfloat = Fin real | PosInf | NegInf | NaN

fun float_le :: "pyfloat \<Rightarrow> pyfloat \<Rightarrow> bool" where
  "float_le NaN y = False"
| "float_le x NaN = False"
| "float_le NegInf y = True"
| "float_le x PosInf = True"
| "float_le PosInf y = False"
| "float_le x NegInf = False"
| "float_le (Fin x) (Fin y) = (x \<le> y)"

fun float_lt :: "pyfloat \<Rightarrow> pyfloat \<Rightarrow> bool" where
  "float_lt NaN y = False"
| "float_lt x NaN = False"
| "float_lt PosInf y = False"
| "float_lt x NegInf = False"
| "float_lt NegInf y = True"
| "float_lt x PosInf = True"
| "float_lt (Fin x) (Fin y) = (x < y)"

text \<open>
  \<^verbatim>\<open>def sample_bernoulli(theta):
      u = np.random.rand()
      if u <= theta:
          return 1
      return 0\<close>
\<close>

definition sample_bernoulli :: "pyfloat \<Rightarrow> real \<Rightarrow> int" where
  "sample_bernoulli theta u = (if float_le (Fin u) theta then 1 else 0)"

text \<open>
  \<^verbatim>\<open>def sample_discrete(p):
      m = len(p)
      u = np.random.rand()
      c = 0.
      for j in range(m):
          c += p[j]
          if u <= c:
              return j\<close>
  A loop that ends without \<^verbatim>\<open>return\<close> makes the function return Python's \<open>None\<close>,
  which is the \<open>None\<close> of the model.
\<close>

function discrete_loop :: "real list \<Rightarrow> real \<Rightarrow> real \<Rightarrow> nat \<Rightarrow> nat option" where
  "discrete_loop p u c j =
     (if j < length p then
        (let c' = c + p ! j in
         if u \<le> c' then Some j else discrete_loop p u c' (j + 1))
      else None)"
  by pat_completeness auto
termination
  by (relation "measure (\<lambda>(p, u, c, j). length p - j)") auto

declare discrete_loop.simps [simp del]

definition sample_discrete :: "real list \<Rightarrow> real \<Rightarrow> nat option" where
  "sample_discrete p u = discrete_loop p u 0 0"




text \<open>A string of decimal digits only.\<close>

definition all_digits :: "string \<Rightarrow> bool" where
  "all_digits cs = (\<forall>c \<in> set cs. digit_val c \<noteq> None)"

section \<open>Properties\<close>

subsection \<open>Linear congruential generator\<close>

text \<open>
  C1. With a = 123456, b = 978564, m = 6012119 every call of the generator replaces
  the state x by (a * x + b) mod m, and from the seed 123456 the first state generated
  is (123456 * 123456 + 978564) mod 6012119, which is 1640835.
\<close>

theorem lcg_state_update:
  "map_sum id snd (unif_lcg x) = Inr ((123456 * x + 978564) mod 6012119)
   \<and> lcg_default x = Inr ((123456 * x + 978564) mod 6012119)
   \<and> map_sum id snd (unif_lcg lcg_seed) = Inr ((123456 * 123456 + 978564) mod 6012119)
   \<and> map_sum id snd (unif_lcg lcg_seed) = Inr 1640835"
  by (simp add: unif_lcg_def lcg_default_def lcg_def m_def lcg_seed_def)







subsection \<open>The middle-square generator\<close>

lemma index_of_less: "index_of x ys = Some d \<Longrightarrow> d < length ys"
  by (induction ys arbitrary: d) (auto split: if_splits)

lemma index_of_member: "index_of x ys \<noteq> None \<Longrightarrow> x \<in> set ys"
  by (induction ys) (auto split: if_splits)

lemma digit_val_digit_char: "d < 10 \<Longrightarrow> digit_val (digit_char d) = Some d"
proof -
  assume "d < 10"
  then have "d \<in> {0, 1, 2, 3, 4, 5, 6, 7, 8, 9}" by auto
  then show ?thesis
    by (auto simp: digit_char_def digit_val_def)
qed

lemma digit_val_less: "digit_val c = Some d \<Longrightarrow> d < 10"
  using index_of_less[of c "''0123456789''" d] by (simp add: digit_val_def)

lemma digit_not_sign:
  "digit_val c \<noteq> None \<Longrightarrow> c \<noteq> CHR ''+'' \<and> c \<noteq> CHR ''-'' \<and> \<not> is_space c"
proof -
  assume "digit_val c \<noteq> None"
  then have "c \<in> set ''0123456789''"
    unfolding digit_val_def by (rule index_of_member)
  then show ?thesis by (auto simp: is_space_def)
qed

lemma all_digits_digits_str: "all_digits (digits_str n)"
proof (induction n rule: digits_str.induct)
  case (1 n)
  show ?case
  proof (cases "n < 10")
    case True
    then show ?thesis
      by (subst digits_str.simps) (simp add: all_digits_def digit_val_digit_char)
  next
    case False
    have "n mod 10 < 10" by simp
    then have "digit_val (digit_char (n mod 10)) \<noteq> None"
      by (simp add: digit_val_digit_char)
    with 1[OF False] False show ?thesis
      by (subst digits_str.simps) (simp add: all_digits_def)
  qed
qed

lemma length_digits_str: "n < 10 ^ k \<Longrightarrow> 0 < k \<Longrightarrow> length (digits_str n) \<le> k"
proof (induction k arbitrary: n)
  case 0
  then show ?case by simp
next
  case (Suc k)
  show ?case
  proof (cases "n < 10")
    case True
    then show ?thesis by (subst digits_str.simps) simp
  next
    case False
    with Suc.prems have k: "0 < k" by (cases k) auto
    from Suc.prems have "n div 10 < 10 ^ k"
      by (simp add: less_mult_imp_div_less mult.commute)
    from Suc.IH[OF this k] False show ?thesis
      by (subst digits_str.simps) simp
  qed
qed

lemma digits_str_nonempty: "digits_str n \<noteq> []"
  by (subst digits_str.simps) simp


lemma zfill_digits:
  assumes "all_digits s" "s \<noteq> []" "int (length s) \<le> w"
  shows "all_digits (zfill s w) \<and> int (length (zfill s w)) = w"
proof (cases "w \<le> int (length s)")
  case True
  with assms show ?thesis by (simp add: zfill_def)
next
  case False
  from assms(2) obtain c rest where s: "s = c # rest" by (cases s) auto
  with assms(1) have "digit_val c \<noteq> None" by (simp add: all_digits_def)
  then have c: "c \<noteq> CHR ''+''" "c \<noteq> CHR ''-''" using digit_not_sign by blast+
  have z: "zfill s w = replicate (nat (w - int (length s))) CHR ''0'' @ s"
    using False c by (simp add: zfill_def s)
  have "digit_val CHR ''0'' \<noteq> None" by (simp add: digit_val_def)
  with assms(1) have "all_digits (zfill s w)"
    unfolding z all_digits_def by auto
  moreover have "int (length (zfill s w)) = w"
    unfolding z using False by simp
  ultimately show ?thesis by simp
qed

lemma slice_from_digits:
  assumes "all_digits xs" "0 \<le> a" "a \<le> int (length xs)"
  shows "all_digits (slice_from a xs) \<and> int (length (slice_from a xs)) = int (length xs) - a"
proof -
  have b: "slice_bound a (length xs) = nat a"
    using assms(2,3) by (simp add: slice_bound_def min_def)
  have "set (drop (nat a) xs) \<subseteq> set xs" by (rule set_drop_subset)
  with assms(1) have "all_digits (drop (nat a) xs)"
    unfolding all_digits_def by blast
  moreover have "int (length (drop (nat a) xs)) = int (length xs) - a"
    using assms(2,3) by simp
  ultimately show ?thesis by (simp add: slice_from_def b)
qed

lemma slice_to_digits:
  assumes "all_digits xs" "b < 0" "- b \<le> int (length xs)"
  shows "all_digits (slice_to b xs) \<and> int (length (slice_to b xs)) = int (length xs) + b"
proof -
  have sb: "slice_bound b (length xs) = nat (int (length xs) + b)"
    using assms(2,3) by (simp add: slice_bound_def max_def)
  have "set (take (nat (int (length xs) + b)) xs) \<subseteq> set xs" by (rule set_take_subset)
  with assms(1) have "all_digits (take (nat (int (length xs) + b)) xs)"
    unfolding all_digits_def by blast
  moreover have "int (length (take (nat (int (length xs) + b)) xs)) = int (length xs) + b"
    using assms(2,3) by simp
  ultimately show ?thesis by (simp add: slice_to_def sb)
qed

lemma strip_digits: "all_digits s \<Longrightarrow> strip s = s"
proof -
  assume a: "all_digits s"
  then have n: "\<forall>c \<in> set s. \<not> is_space c"
    using digit_not_sign by (auto simp: all_digits_def)
  then have 1: "dropWhile is_space s = s"
    by (cases s) auto
  from n have "\<forall>c \<in> set (rev s). \<not> is_space c" by simp
  then have 2: "dropWhile is_space (rev s) = rev s"
    by (cases "rev s") auto
  show ?thesis by (simp add: strip_def 1 2)
qed

lemma parse_digits_bound:
  "all_digits cs \<Longrightarrow> \<exists>v. parse_digits acc cs = Some v \<and> v < (acc + 1) * 10 ^ length cs"
proof (induction cs arbitrary: acc)
  case Nil
  then show ?case by simp
next
  case (Cons c cs)
  from Cons.prems obtain d where d: "digit_val c = Some d"
    by (auto simp: all_digits_def)
  then have d10: "d < 10" by (rule digit_val_less)
  from Cons.prems have "all_digits cs" by (simp add: all_digits_def)
  from Cons.IH[OF this, of "10 * acc + d"] obtain v
    where v: "parse_digits (10 * acc + d) cs = Some v"
      and b: "v < (10 * acc + d + 1) * 10 ^ length cs" by blast
  from d10 have "10 * acc + d + 1 \<le> (acc + 1) * 10" by simp
  then have "(10 * acc + d + 1) * 10 ^ length cs \<le> (acc + 1) * 10 * 10 ^ length cs"
    by (rule mult_le_mono1)
  with b have "v < (acc + 1) * 10 * 10 ^ length cs" by (rule less_le_trans)
  also have "(acc + 1) * 10 * 10 ^ length cs = (acc + 1) * 10 ^ length (c # cs)"
    by (simp only: list.size power_Suc mult.assoc One_nat_def add_Suc_right add_0_right)
  finally have "v < (acc + 1) * 10 ^ length (c # cs)" .
  with v d show ?case by simp
qed

lemma py_int_digits:
  assumes "all_digits s" "s \<noteq> []"
  shows "\<exists>r. py_int s = Inr r \<and> 0 \<le> r \<and> r < 10 ^ length s"
proof -
  from assms(2) obtain c rest where s: "s = c # rest" by (cases s) auto
  with assms(1) have "digit_val c \<noteq> None" by (simp add: all_digits_def)
  then have c: "c \<noteq> CHR ''+''" "c \<noteq> CHR ''-''" using digit_not_sign by blast+
  from parse_digits_bound[OF assms(1), of 0] obtain v
    where v: "parse_digits 0 s = Some v" and b: "v < 10 ^ length s" by auto
  have "strip (c # rest) = c # rest"
    using strip_digits[OF assms(1)] by (simp add: s)
  then have "py_int s = parse_nat s"
    using c by (simp add: py_int_def s)
  then have "py_int s = Inr (int v)"
    using v assms(2) by (simp add: parse_nat_def)
  moreover from b have "int v < 10 ^ length s"
    by (metis of_nat_less_iff of_nat_numeral of_nat_power)
  ultimately show ?thesis by simp
qed


lemma middlesquare_step:
  assumes "even digits" "0 < digits" "0 \<le> s" "s < 10 ^ nat digits"
  shows "\<exists>r. middlesquare s digits = Inr r \<and> 0 \<le> r \<and> r < 10 ^ nat digits"
proof -
  from assms(1) obtain k where k: "digits = 2 * k" by (elim evenE)
  with assms(2) have k0: "0 < k" by simp
  define str where "str = py_str (s ^ 2)"
  define z where "z = zfill str (2 * digits)"
  define f where "f = slice_from (digits div 2) z"
  define t where "t = slice_to ((- digits) div 2) f"
  have m: "middlesquare s digits = py_int t"
    by (simp add: middlesquare_def Let_def t_def f_def z_def str_def)
  have "s ^ 2 < (10 ^ nat digits) ^ 2"
    using assms(3,4) by (intro power_strict_mono) simp_all
  also have "(10 ^ nat digits) ^ 2 = (10::int) ^ nat (2 * digits)"
    using assms(2) by (simp add: power_mult [symmetric] nat_mult_distrib mult.commute)
  finally have s2: "s ^ 2 < 10 ^ nat (2 * digits)" .
  have "int (nat (s ^ 2)) < int (10 ^ nat (2 * digits))"
    using s2 by simp
  then have n2: "nat (s ^ 2) < 10 ^ nat (2 * digits)"
    by (simp only: of_nat_less_iff)
  have str: "str = digits_str (nat (s ^ 2))"
    by (simp add: str_def py_str_def)
  have str_d: "all_digits str" and str_n: "str \<noteq> []"
    by (simp_all add: str all_digits_digits_str digits_str_nonempty)
  have "length str \<le> nat (2 * digits)"
    unfolding str using n2 assms(2) by (intro length_digits_str) simp_all
  then have str_l: "int (length str) \<le> 2 * digits" using assms(2) by simp
  from zfill_digits[OF str_d str_n str_l]
  have z_d: "all_digits z" and z_l: "int (length z) = 2 * digits"
    by (simp_all add: z_def)
  have dk: "digits div 2 = k" "(- digits) div 2 = - k" by (simp_all add: k)
  have "0 \<le> digits div 2" "digits div 2 \<le> int (length z)"
    using k0 by (simp_all add: dk z_l k)
  from slice_from_digits[OF z_d this]
  have f_d: "all_digits f" and f_l: "int (length f) = 3 * k"
    by (simp_all add: f_def z_l dk k)
  have "(- digits) div 2 < 0" "- ((- digits) div 2) \<le> int (length f)"
    using k0 by (simp_all add: dk f_l)
  from slice_to_digits[OF f_d this]
  have t_d: "all_digits t" and t_l: "int (length t) = digits"
    by (simp_all add: t_def f_l dk k)
  from t_l assms(2) have t_n: "t \<noteq> []" by auto
  from t_l have "length t = nat digits" by simp
  with py_int_digits[OF t_d t_n] show ?thesis by (simp add: m)
qed

lemma middlesquare_loop_range:
  assumes "even digits" "0 < digits"
  shows "0 \<le> s \<Longrightarrow> s < 10 ^ nat digits \<Longrightarrow>
    \<exists>xs. middlesquare_loop n s digits = Inr xs \<and> length xs = n
       \<and> (\<forall>x \<in> set xs. 0 \<le> x \<and> x < 10 ^ nat digits)"
proof (induction n arbitrary: s)
  case 0
  then show ?case by simp
next
  case (Suc n)
  from middlesquare_step[OF assms Suc.prems] obtain r
    where r: "middlesquare s digits = Inr r" "0 \<le> r" "r < 10 ^ nat digits" by blast
  from Suc.IH[OF r(2,3)] obtain xs
    where xs: "middlesquare_loop n r digits = Inr xs" "length xs = n"
      "\<forall>x \<in> set xs. 0 \<le> x \<and> x < 10 ^ nat digits" by blast
  have "middlesquare_loop (Suc n) s digits = Inr (r # xs)"
    by (simp add: r(1) xs(1))
  with r xs show ?case by simp
qed

text \<open>
  C9. For an even positive \<open>digits\<close> and a state s with 0 \<le> s < 10^digits,
  \<open>middlesquare\<close> returns an integer of the same range, so the loop that iterates it
  from such a seed returns, and every state it prints lies in [0, 10^digits).
\<close>

theorem middlesquare_range:
  assumes "even digits" "0 < digits" "0 \<le> s" "s < 10 ^ nat digits"
  shows "(\<exists>r. middlesquare s digits = Inr r \<and> 0 \<le> r \<and> r < 10 ^ nat digits)
    \<and> (\<exists>xs. middlesquare_loop n s digits = Inr xs \<and> length xs = n
          \<and> (\<forall>x \<in> set xs. 0 \<le> x \<and> x < 10 ^ nat digits))"
  using middlesquare_step[OF assms] middlesquare_loop_range[OF assms] by simp

theorem middlesquare_range_witness:
  "even (4::int) \<and> (0::int) < 4 \<and> (0::int) \<le> 1234 \<and> (1234::int) < 10 ^ nat 4
   \<and> (\<exists>r. middlesquare 1234 4 = Inr r \<and> 0 \<le> r \<and> r < 10 ^ nat 4)
   \<and> (\<exists>xs. middlesquare_loop 3 1234 4 = Inr xs \<and> length xs = 3
          \<and> (\<forall>x \<in> set xs. 0 \<le> x \<and> x < 10 ^ nat 4))"
  using middlesquare_range[of 4 1234 3] by simp

subsection \<open>Samplers\<close>

text \<open>
  C5. For 0 \<le> theta \<le> 1 and any draw u, \<open>sample_bernoulli\<close> returns 1 when
  u \<le> theta and 0 otherwise, so its result is 0 or 1.
\<close>

theorem sample_bernoulli_threshold:
  assumes "0 \<le> theta" "theta \<le> 1"
  shows "sample_bernoulli (Fin theta) u = (if u \<le> theta then 1 else 0)
    \<and> sample_bernoulli (Fin theta) u \<in> {0, 1}"
  by (simp add: sample_bernoulli_def)

theorem sample_bernoulli_threshold_witness:
  "(0::real) \<le> 3 / 10 \<and> (3 / 10 ::real) \<le> 1
   \<and> sample_bernoulli (Fin (3 / 10)) (1 / 5) = 1 \<and> sample_bernoulli (Fin (3 / 10)) (1 / 2) = 0"
  using sample_bernoulli_threshold[of "3 / 10" "1 / 5"]
    sample_bernoulli_threshold[of "3 / 10" "1 / 2"] by simp

text \<open>
  C10. For every float theta, a NaN and the infinities included, and every draw u of
  [0, 1), \<open>sample_bernoulli\<close> returns 0 or 1 (the model has no exception to raise, as
  the source has none); it returns 0 when theta < 0 and 1 when theta \<ge> 1.
\<close>

theorem sample_bernoulli_total:
  assumes "0 \<le> u" "u < 1"
  shows "sample_bernoulli theta u \<in> {0, 1}
    \<and> (float_lt theta (Fin 0) \<longrightarrow> sample_bernoulli theta u = 0)
    \<and> (float_le (Fin 1) theta \<longrightarrow> sample_bernoulli theta u = 1)"
  using assms by (cases theta) (simp_all add: sample_bernoulli_def)

theorem sample_bernoulli_total_witness:
  "(0::real) \<le> 1 / 2 \<and> (1 / 2 ::real) < 1
   \<and> float_lt (Fin (- 2)) (Fin 0) \<and> sample_bernoulli (Fin (- 2)) (1 / 2) = 0
   \<and> float_le (Fin 1) PosInf \<and> sample_bernoulli PosInf (1 / 2) = 1
   \<and> sample_bernoulli NaN (1 / 2) \<in> {0, 1}"
  using sample_bernoulli_total[of "1 / 2" "Fin (- 2)"]
    sample_bernoulli_total[of "1 / 2" PosInf] sample_bernoulli_total[of "1 / 2" NaN]
  by simp

text \<open>
  C4, as the code has it. For every draw u of [0, 1): \<open>sample_discrete\<close> on the
  one-entry list [1.0] returns index 0, \<open>sample_bernoulli\<close> at 1 returns 1, and
  \<open>sample_bernoulli\<close> at 0 returns 0 for u > 0 but 1 for the draw u = 0, since the test
  of the source is \<^verbatim>\<open>u <= theta\<close>.
\<close>

theorem boundary_values:
  assumes "0 \<le> u" "u < 1"
  shows "sample_discrete [1] u = Some 0 \<and> sample_bernoulli (Fin 1) u = 1
    \<and> sample_bernoulli (Fin 0) u = (if u = 0 then 1 else 0)"
  using assms by (simp add: sample_discrete_def discrete_loop.simps sample_bernoulli_def)

theorem boundary_values_witness:
  "(0::real) \<le> 1 / 2 \<and> (1 / 2 ::real) < 1 \<and> sample_discrete [1] (1 / 2) = Some 0
   \<and> sample_bernoulli (Fin 1) (1 / 2) = 1 \<and> sample_bernoulli (Fin 0) (1 / 2) = 0"
  using boundary_values[of "1 / 2"] by simp

text \<open>The draw u = 0 belongs to [0, 1), and there \<open>sample_bernoulli\<close> at theta = 0
  returns 1, not 0.\<close>

theorem bernoulli_zero_counterexample:
  "(0::real) \<le> 0 \<and> (0::real) < 1 \<and> sample_bernoulli (Fin 0) 0 = 1
   \<and> sample_bernoulli (Fin 0) 0 \<noteq> 0"
  by (simp add: sample_bernoulli_def)











end
